theory Spec2Isabelle
  imports Main
begin

section \<open>Data model of \<open>Sequence.cc\<close>\<close>

text \<open>
  The tag set of \<open>Step::Type\<close>.  Both switches of \<open>Sequence.cc\<close> name exactly
  these eight enumerators.
\<close>

datatype step_type =
  type_action | type_if | type_else | type_elseif | type_end
  | type_while | type_try | type_catch

text \<open>
  A \<open>Step\<close> as far as \<open>Sequence.cc\<close> reads and writes it: \<open>get_type()\<close> and
  \<open>get_indentation_level()\<close> / \<open>set_indentation_level()\<close>.  The record is
  extensible, so all results hold for steps carrying any further payload
  (label, script, time stamps).  The level is a C++ \<open>short\<close>; it is modelled
  as an \<open>int\<close>, and \<open>indent_loop_level_range\<close> and \<open>indent_loop_levels_range\<close>
  below show that the pass keeps every value it computes between \<open>-1\<close> and
  \<open>max_indentation_level + 1\<close>, so no wrap-around of the 16-bit type occurs.
\<close>

record Step =
  get_type :: step_type
  get_indentation_level :: int

text \<open>
  The members of \<open>Sequence\<close> that \<open>Sequence.cc\<close> uses: \<open>label_\<close>, \<open>steps_\<close>
  and \<open>indentation_error_\<close>.
\<close>

record 'a Sequence =
  label :: string
  steps :: "'a Step_scheme list"
  indentation_error :: string

text \<open>\<open>task::Error\<close>, an exception that carries its message.\<close>

datatype Error = Error string

text \<open>
  Modelled from the spec: the constant \<open>Step::max_indentation_level\<close> is declared
  in the header \<open>Step.h\<close>, which is not among the sources.  The spec gives the
  fixed maximum nesting depth as 20.
\<close>

definition max_indentation_level :: int where
  "max_indentation_level = 20"

subsection \<open>Decimal output of \<open>gul14::cat\<close>\<close>

definition digit_char :: "nat \<Rightarrow> char" where
  "digit_char d = ''0123456789'' ! d"

function show_nat :: "nat \<Rightarrow> string" where
  "show_nat n =
     (if n < 10 then [digit_char n]
      else show_nat (n div 10) @ [digit_char (n mod 10)])"
  by pat_completeness auto
termination
  by (relation "measure (\<lambda>n. n)") auto

declare show_nat.simps [simp del]

section \<open>\<open>Sequence::indent\<close>\<close>

text \<open>
  One iteration of the \<open>for\<close> loop of \<open>indent()\<close>.  The state of the loop is
  the depth counter \<open>level\<close> and the member \<open>indentation_error_\<close>; the step is
  returned with its new indentation level.
\<close>

definition indent_body ::
  "int \<Rightarrow> string \<Rightarrow> 'a Step_scheme \<Rightarrow> 'a Step_scheme \<times> int \<times> string" where
  "indent_body level err step =
     (let (step_level, level1) =
            (case get_type step of
               type_action \<Rightarrow> (level, level)
             | type_if \<Rightarrow> (level, level + 1)
             | type_try \<Rightarrow> (level, level + 1)
             | type_while \<Rightarrow> (level, level + 1)
             | type_catch \<Rightarrow> (level - 1, level)
             | type_else \<Rightarrow> (level - 1, level)
             | type_elseif \<Rightarrow> (level - 1, level)
             | type_end \<Rightarrow> (level - 1, level - 1));
          (step_level2, err1) =
            (if step_level < 0
             then (0, if err = [] then ''Steps are not nested correctly'' else err)
             else (step_level, err));
          step' = step\<lparr>get_indentation_level := step_level2\<rparr>;
          (level2, err2) =
            (if level1 < 0
             then (0, if err1 = []
                      then ''Steps are not nested correctly (every END must ''
                           @ ''correspond to one IF, TRY, or WHILE)''
                      else err1)
             else if level1 > max_indentation_level
             then (max_indentation_level,
                   if err1 = []
                   then ''Steps are nested too deeply (max. level: ''
                        @ show_nat (nat max_indentation_level) @ '')''
                   else err1)
             else (level1, err1))
      in (step', level2, err2))"

text \<open>The \<open>for\<close> loop over \<open>steps_\<close>.\<close>

fun indent_loop ::
  "int \<Rightarrow> string \<Rightarrow> 'a Step_scheme list \<Rightarrow> 'a Step_scheme list \<times> int \<times> string" where
  "indent_loop level err [] = ([], level, err)"
| "indent_loop level err (step # rest) =
     (case indent_body level err step of
        (step', level', err') \<Rightarrow>
          (case indent_loop level' err' rest of
             (rest', level'', err'') \<Rightarrow> (step' # rest', level'', err'')))"

text \<open>
  \<open>indent()\<close> itself: the counter starts at 0, the error is cleared, the loop
  runs, and a nonzero final depth is reported unless an error is already
  recorded.  The function is \<open>noexcept\<close>: it has no error result.
\<close>

definition indent :: "'a Sequence \<Rightarrow> 'a Sequence" where
  "indent seq =
     (case indent_loop 0 [] (steps seq) of
        (steps', level, err) \<Rightarrow>
          seq\<lparr>steps := steps',
              indentation_error :=
                (if level \<noteq> 0
                 then (if err = []
                       then ''Steps are not nested correctly (there must be one END ''
                            @ ''for each IF, TRY, WHILE)''
                       else err)
                 else err)\<rparr>)"

section \<open>\<open>Sequence::check_syntax\<close>\<close>

text \<open>
  Modelled from the spec: \<open>detail::find_end_of_indented_block\<close> is declared in
  a header that is not among the sources.  The spec describes it as a pure
  function of a start position, an end bound and a level that scans forward
  linearly: any step at a level above the opener's level \<open>L\<close> is inside the
  block, and the first step found at level \<open>\<le> L\<close> is the boundary.  All callers
  in \<open>Sequence.cc\<close> pass \<open>L + 1\<close>, the level of the block's body, so the
  boundary is the first step whose level is below that argument; the end
  bound is returned when there is none.  (The comparison is strict: \<open>IF,
  ACTION, END\<close> with levels 0, 1, 0 is a valid sequence for the specification
  and for the tests, so the \<open>ACTION\<close> at level \<open>L + 1\<close> is no boundary.)
  Iterators into \<open>steps_\<close> are indices; a step is read only at an index
  below the end bound, and every caller passes a start that is at most the
  end bound.
\<close>

function find_end_of_indented_block ::
  "'a Step_scheme list \<Rightarrow> nat \<Rightarrow> nat \<Rightarrow> int \<Rightarrow> nat" where
  "find_end_of_indented_block ss b e min_indentation_level =
     (if b < e
      then (if get_indentation_level (ss ! b) < min_indentation_level then b
            else find_end_of_indented_block ss (b + 1) e min_indentation_level)
      else e)"
  by pat_completeness auto
termination
  by (relation "measure (\<lambda>(ss, b, e, l). e - b)") auto

declare find_end_of_indented_block.simps [simp del]

text \<open>
  \<open>throw_syntax_error_for_step\<close>: the position \<open>it - steps_.begin() + 1\<close> is
  the index plus one.
\<close>

definition throw_syntax_error_for_step :: "nat \<Rightarrow> string \<Rightarrow> Error + 'b" where
  "throw_syntax_error_for_step it msg =
     Inl (Error (''[syntax check] Step '' @ show_nat (it + 1) @ '': '' @ msg))"

text \<open>
  The recursive-descent checker.  \<open>check_syntax_range\<close> is the two-iterator
  overload \<open>check_syntax(begin, end)\<close>; its \<open>while (step < end)\<close> loop is the
  recursion on \<open>step\<close>.  \<open>check_syntax_for_if_loop\<close> is the \<open>while (true)\<close> loop
  of \<open>check_syntax_for_if\<close> with its two variables \<open>else_found\<close> and
  \<open>it_block_statement\<close>.  A thrown \<open>Error\<close> is \<open>Inl\<close> and is passed on by every
  caller.  The \<open>default\<close> branch of the switch (``Unexpected step type'') has
  no counterpart, since the eight enumerators are all there are.  In the
  tests \<open>block_end == end || block_end->get_type() != \<dots>\<close> the step is not
  read when the boundary is the end bound; the disjunction of the model is
  true there whatever \<open>ss ! e\<close> is.  The functions call each other and the
  position where scanning resumes is a result of the callee, so their
  termination needs the lemmas of the section on termination below, where
  it is proved.
\<close>

function check_syntax_range ::
    "'a Step_scheme list \<Rightarrow> nat \<Rightarrow> nat \<Rightarrow> Error + unit"
  and check_syntax_for_while ::
    "'a Step_scheme list \<Rightarrow> nat \<Rightarrow> nat \<Rightarrow> Error + nat"
  and check_syntax_for_try ::
    "'a Step_scheme list \<Rightarrow> nat \<Rightarrow> nat \<Rightarrow> Error + nat"
  and check_syntax_for_if ::
    "'a Step_scheme list \<Rightarrow> nat \<Rightarrow> nat \<Rightarrow> Error + nat"
  and check_syntax_for_if_loop ::
    "'a Step_scheme list \<Rightarrow> nat \<Rightarrow> nat \<Rightarrow> bool \<Rightarrow> nat \<Rightarrow> Error + nat"
where
  "check_syntax_range ss step e =
     (if step < e
      then (case get_type (ss ! step) of
              type_while \<Rightarrow>
                (case check_syntax_for_while ss step e of
                   Inl err \<Rightarrow> Inl err
                 | Inr step' \<Rightarrow> check_syntax_range ss step' e)
            | type_try \<Rightarrow>
                (case check_syntax_for_try ss step e of
                   Inl err \<Rightarrow> Inl err
                 | Inr step' \<Rightarrow> check_syntax_range ss step' e)
            | type_if \<Rightarrow>
                (case check_syntax_for_if ss step e of
                   Inl err \<Rightarrow> Inl err
                 | Inr step' \<Rightarrow> check_syntax_range ss step' e)
            | type_action \<Rightarrow> check_syntax_range ss (step + 1) e
            | type_catch \<Rightarrow>
                throw_syntax_error_for_step step ''CATCH without matching TRY''
            | type_elseif \<Rightarrow>
                throw_syntax_error_for_step step ''ELSE IF without matching IF''
            | type_else \<Rightarrow>
                throw_syntax_error_for_step step ''ELSE without matching IF''
            | type_end \<Rightarrow>
                throw_syntax_error_for_step step ''END without matching IF/WHILE/TRY'')
      else Inr ())"
| "check_syntax_for_while ss b e =
     (let block_end = find_end_of_indented_block ss (b + 1) e
                        (get_indentation_level (ss ! b) + 1)
      in if block_end = e \<or> get_type (ss ! block_end) \<noteq> type_end
         then throw_syntax_error_for_step b ''WHILE without matching END''
         else (case check_syntax_range ss (b + 1) block_end of
                 Inl err \<Rightarrow> Inl err
               | Inr u \<Rightarrow> Inr (block_end + 1)))"
| "check_syntax_for_try ss b e =
     (let it_catch = find_end_of_indented_block ss (b + 1) e
                       (get_indentation_level (ss ! b) + 1)
      in if it_catch = e \<or> get_type (ss ! it_catch) \<noteq> type_catch
         then throw_syntax_error_for_step b ''TRY without matching CATCH''
         else (case check_syntax_range ss (b + 1) it_catch of
                 Inl err \<Rightarrow> Inl err
               | Inr u \<Rightarrow>
                   (let it_catch_block_end =
                          find_end_of_indented_block ss (it_catch + 1) e
                            (get_indentation_level (ss ! b) + 1)
                    in if it_catch_block_end = e
                          \<or> get_type (ss ! it_catch_block_end) \<noteq> type_end
                       then throw_syntax_error_for_step b
                              ''TRY...CATCH without matching END''
                       else (case check_syntax_range ss (it_catch + 1)
                                    it_catch_block_end of
                               Inl err \<Rightarrow> Inl err
                             | Inr u \<Rightarrow> Inr (it_catch_block_end + 1)))))"
| "check_syntax_for_if ss b e = check_syntax_for_if_loop ss b e False b"
| "check_syntax_for_if_loop ss b e else_found it_block_statement =
     (let it = find_end_of_indented_block ss (it_block_statement + 1) e
                 (get_indentation_level (ss ! b) + 1)
      in if it = e
         then throw_syntax_error_for_step b ''IF without matching END''
         else (case check_syntax_range ss (it_block_statement + 1) it of
                 Inl err \<Rightarrow> Inl err
               | Inr u \<Rightarrow>
                   (case get_type (ss ! it) of
                      type_elseif \<Rightarrow>
                        (if else_found
                         then throw_syntax_error_for_step it
                                ''ELSE IF after ELSE clause''
                         else check_syntax_for_if_loop ss b e else_found it)
                    | type_else \<Rightarrow>
                        (if else_found
                         then throw_syntax_error_for_step it
                                ''Duplicate ELSE clause''
                         else check_syntax_for_if_loop ss b e True it)
                    | type_end \<Rightarrow> Inr (it + 1)
                    | _ \<Rightarrow>
                        throw_syntax_error_for_step it
                          ''Unfinished IF construct'')))"
  by pat_completeness auto

text \<open>The domain of the five functions, for the lemmas that termination needs.\<close>

abbreviation (input) cs_dom where
  "cs_dom \<equiv> check_syntax_range_check_syntax_for_while_check_syntax_for_try_check_syntax_for_if_check_syntax_for_if_loop_dom"

text \<open>The public \<open>check_syntax()\<close>.\<close>

definition check_syntax :: "'a Sequence \<Rightarrow> Error + unit" where
  "check_syntax seq =
     (if indentation_error seq \<noteq> []
      then Inl (Error (indentation_error seq))
      else check_syntax_range (steps seq) 0 (length (steps seq)))"

section \<open>Constructor and \<open>check_label\<close>\<close>

text \<open>
  The constant \<open>max_label_length\<close> is declared in a header that is not among
  the sources; it is a parameter here.
\<close>

definition check_label :: "nat \<Rightarrow> string \<Rightarrow> Error + unit" where
  "check_label max_label_length lbl =
     (if lbl = [] then Inl (Error ''Sequence label may not be empty'')
      else if length lbl > max_label_length
      then Inl (Error (''Label '' @ [CHR 0x22] @ lbl @ [CHR 0x22] @ '' is too long (>''
                       @ show_nat max_label_length @ '' characters)''))
      else Inr ())"

definition Sequence_ctor :: "nat \<Rightarrow> string \<Rightarrow> Error + unit Sequence" where
  "Sequence_ctor max_label_length lbl =
     (case check_label max_label_length lbl of
        Inl err \<Rightarrow> Inl err
      | Inr u \<Rightarrow> Inr \<lparr>label = lbl, steps = [], indentation_error = []\<rparr>)"

section \<open>The specification's table of levels and depth changes\<close>

text \<open>
  The table of the specification, written from its words: the level a step
  is given as a function of the current depth and its type, and the depth
  after the step.  \<open>table_levels\<close> runs the table over a list of step types
  with no bound on the depth, clamping only a negative level to 0.
\<close>

definition table_level :: "int \<Rightarrow> step_type \<Rightarrow> int" where
  "table_level depth ty =
     (if ty \<in> {type_action, type_if, type_try, type_while} then depth else depth - 1)"

definition table_depth :: "int \<Rightarrow> step_type \<Rightarrow> int" where
  "table_depth depth ty =
     (if ty \<in> {type_if, type_try, type_while} then depth + 1
      else if ty = type_end then depth - 1
      else depth)"

fun table_levels :: "int \<Rightarrow> step_type list \<Rightarrow> int list" where
  "table_levels depth [] = []"
| "table_levels depth (ty # tys) =
     max 0 (table_level depth ty) # table_levels (table_depth depth ty) tys"

text \<open>
  The depth as \<open>indent()\<close> keeps it: the table's depth, held between 0 and
  \<open>max_indentation_level\<close>.  \<open>depth_after depth tys\<close> is the depth after the
  steps of types \<open>tys\<close>.
\<close>

definition clamped_depth :: "int \<Rightarrow> step_type \<Rightarrow> int" where
  "clamped_depth depth ty = min max_indentation_level (max 0 (table_depth depth ty))"

fun depth_after :: "int \<Rightarrow> step_type list \<Rightarrow> int" where
  "depth_after depth [] = depth"
| "depth_after depth (ty # tys) = depth_after (clamped_depth depth ty) tys"

text \<open>Projections of the result of the loop.\<close>

definition loop_steps :: "'a Step_scheme list \<times> int \<times> string \<Rightarrow> 'a Step_scheme list" where
  "loop_steps r = fst r"

definition loop_level :: "'a Step_scheme list \<times> int \<times> string \<Rightarrow> int" where
  "loop_level r = fst (snd r)"

definition loop_error :: "'a Step_scheme list \<times> int \<times> string \<Rightarrow> string" where
  "loop_error r = snd (snd r)"

section \<open>Example sequences\<close>

definition mk_step :: "step_type \<Rightarrow> Step" where
  "mk_step ty = \<lparr>get_type = ty, get_indentation_level = 0\<rparr>"

definition mk_sequence :: "step_type list \<Rightarrow> unit Sequence" where
  "mk_sequence tys = \<lparr>label = ''sequence'', steps = map mk_step tys, indentation_error = []\<rparr>"

definition step_at :: "step_type \<Rightarrow> int \<Rightarrow> Step" where
  "step_at ty lvl = \<lparr>get_type = ty, get_indentation_level = lvl\<rparr>"

text \<open>Whether a message contains a given text.\<close>

fun mentions :: "string \<Rightarrow> string \<Rightarrow> bool" where
  "mentions pat [] = (pat = [])"
| "mentions pat (c # cs) = (take (length pat) (c # cs) = pat \<or> mentions pat cs)"

section \<open>Termination of the checker\<close>

text \<open>
  The position at which scanning resumes comes out of the recursive calls,
  so termination needs to know, for arguments on which the functions are
  defined, that a construct always ends behind its opener.
\<close>

lemma find_end_of_indented_block_bounds:
  "find_end_of_indented_block ss b e l \<noteq> e \<Longrightarrow>
     b \<le> find_end_of_indented_block ss b e l \<and> find_end_of_indented_block ss b e l < e"
proof (induction ss b e l rule: find_end_of_indented_block.induct)
  case (1 ss b e l)
  show ?case
  proof (cases "b < e \<and> \<not> get_indentation_level (ss ! b) < l")
    case True
    then have eq: "find_end_of_indented_block ss b e l
                     = find_end_of_indented_block ss (b + 1) e l"
      by (subst find_end_of_indented_block.simps) simp
    with 1 True show ?thesis by fastforce
  next
    case False
    with "1.prems" show ?thesis
      by (subst (1 2) find_end_of_indented_block.simps)
         (auto simp: find_end_of_indented_block.simps[of ss b e l] split: if_splits)
  qed
qed

lemmas cs_pinduct =
  check_syntax_range_check_syntax_for_while_check_syntax_for_try_check_syntax_for_if_check_syntax_for_if_loop.pinduct

lemma check_syntax_for_while_resume_partial:
  assumes "cs_dom (Inl (Inr (ss, b, e)))"
    and "check_syntax_for_while ss b e = Inr n"
  shows "b < n \<and> n \<le> e"
proof -
  let ?x = "find_end_of_indented_block ss (b + 1) e (get_indentation_level (ss ! b) + 1)"
  from assms have ne: "?x \<noteq> e" and n: "n = ?x + 1"
    by (auto simp: check_syntax_for_while.psimps Let_def throw_syntax_error_for_step_def
             split: if_splits sum.splits)
  from find_end_of_indented_block_bounds[OF ne] n show ?thesis by simp
qed

lemma check_syntax_for_try_resume_partial:
  assumes "cs_dom (Inr (Inl (ss, b, e)))"
    and "check_syntax_for_try ss b e = Inr n"
  shows "b < n \<and> n \<le> e"
proof -
  let ?l = "get_indentation_level (ss ! b) + 1"
  let ?x = "find_end_of_indented_block ss (b + 1) e ?l"
  let ?y = "find_end_of_indented_block ss (?x + 1) e ?l"
  from assms have ne: "?x \<noteq> e" and ne': "?y \<noteq> e" and n: "n = ?y + 1"
    by (auto simp: check_syntax_for_try.psimps Let_def throw_syntax_error_for_step_def
             split: if_splits sum.splits)
  from find_end_of_indented_block_bounds[OF ne] find_end_of_indented_block_bounds[OF ne'] n
  show ?thesis by simp
qed

lemma check_syntax_for_if_loop_resume_partial:
  assumes "cs_dom (Inr (Inr (Inr (ss, b, e, else_found, it_block_statement))))"
  shows "check_syntax_for_if_loop ss b e else_found it_block_statement = Inr n
           \<longrightarrow> it_block_statement < n \<and> n \<le> e"
  using assms
proof (induction ss b e else_found it_block_statement
    rule: cs_pinduct(5)[where ?P1.0 = "\<lambda>_ _ _. True" and ?P2.0 = "\<lambda>_ _ _. True"
      and ?P3.0 = "\<lambda>_ _ _. True" and ?P4.0 = "\<lambda>_ _ _. True"])
  case (5 ss b e else_found it_block_statement)
  let ?x = "find_end_of_indented_block ss (it_block_statement + 1) e
              (get_indentation_level (ss ! b) + 1)"
  show ?case
  proof
    assume res: "check_syntax_for_if_loop ss b e else_found it_block_statement = Inr n"
    from res 5(1) have ne: "?x \<noteq> e"
      by (auto simp: check_syntax_for_if_loop.psimps Let_def throw_syntax_error_for_step_def
               split: if_splits)
    note bnd = find_end_of_indented_block_bounds[OF ne]
    from res 5(1) ne obtain u where body: "check_syntax_range ss (it_block_statement + 1) ?x = Inr u"
      by (auto simp: check_syntax_for_if_loop.psimps Let_def split: sum.splits)
    show "it_block_statement < n \<and> n \<le> e"
    proof (cases "get_type (ss ! ?x)")
      case type_else
      with res 5(1) ne body have nf: "\<not> else_found"
        and r: "check_syntax_for_if_loop ss b e True ?x = Inr n"
        by (auto simp: check_syntax_for_if_loop.psimps Let_def throw_syntax_error_for_step_def
                 split: if_splits)
      from 5(3)[OF refl ne body type_else nf] r bnd show ?thesis by simp
    next
      case type_elseif
      with res 5(1) ne body have nf: "\<not> else_found"
        and r: "check_syntax_for_if_loop ss b e else_found ?x = Inr n"
        by (auto simp: check_syntax_for_if_loop.psimps Let_def throw_syntax_error_for_step_def
                 split: if_splits)
      from 5(4)[OF refl ne body type_elseif nf] r bnd show ?thesis by simp
    next
      case type_end
      with res 5(1) ne body have "n = ?x + 1"
        by (auto simp: check_syntax_for_if_loop.psimps Let_def)
      with bnd show ?thesis by simp
    qed (use res 5(1) ne body in \<open>auto simp: check_syntax_for_if_loop.psimps Let_def
           throw_syntax_error_for_step_def\<close>)
  qed
qed simp_all

lemma check_syntax_for_if_resume_partial:
  assumes "cs_dom (Inr (Inr (Inl (ss, b, e))))"
  shows "check_syntax_for_if ss b e = Inr n \<longrightarrow> b < n \<and> n \<le> e"
  using assms
proof (induction ss b e
    rule: cs_pinduct(4)[where ?P1.0 = "\<lambda>_ _ _. True" and ?P2.0 = "\<lambda>_ _ _. True"
      and ?P3.0 = "\<lambda>_ _ _. True"
      and ?P5.0 = "\<lambda>ss b e else_found it_block_statement.
            cs_dom (Inr (Inr (Inr (ss, b, e, else_found, it_block_statement))))"])
  case (4 ss b e)
  from check_syntax_for_if_loop_resume_partial[OF 4(2), of n] 4(1)
  show ?case by (simp add: check_syntax_for_if.psimps)
qed simp_all

termination check_syntax_range
proof (relation "measure (\<lambda>x. case x of
      Inl (Inl (ss, b, e)) \<Rightarrow> 3 * (e - b) + 2
    | Inl (Inr (ss, b, e)) \<Rightarrow> 3 * (e - b) + 1
    | Inr (Inl (ss, b, e)) \<Rightarrow> 3 * (e - b) + 1
    | Inr (Inr (Inl (ss, b, e))) \<Rightarrow> 3 * (e - b) + 1
    | Inr (Inr (Inr (ss, b, e, ef, ibs))) \<Rightarrow> 3 * (e - ibs))", goal_cases)
  case (4 ss step e n)
  from check_syntax_for_if_resume_partial[OF 4(4), of n] 4(1,3) show ?case by auto
next
  case (6 ss step e n)
  from check_syntax_for_while_resume_partial[OF 6(4) 6(3)] 6(1) show ?case by auto
next
  case (8 ss step e n)
  from check_syntax_for_try_resume_partial[OF 8(4) 8(3)] 8(1) show ?case by auto
next
  case (9 ss b e x)
  then have "x \<noteq> e" by simp
  from find_end_of_indented_block_bounds[OF this[unfolded 9(1)]] 9(1) show ?case by auto
next
  case (10 ss b e x)
  then have "x \<noteq> e" by simp
  from find_end_of_indented_block_bounds[OF this[unfolded 10(1)]] 10(1) show ?case by auto
next
  case (11 ss b e x u xa)
  then have "x \<noteq> e" "xa \<noteq> e" by simp_all
  from find_end_of_indented_block_bounds[OF this(1)[unfolded 11(1)]]
       find_end_of_indented_block_bounds[OF this(2)[unfolded 11(4)]] 11(1,4)
  show ?case by auto
next
  case (13 ss b e else_found it_block_statement x)
  from find_end_of_indented_block_bounds[OF 13(2)[unfolded 13(1)]] 13(1) show ?case by auto
next
  case (14 ss b e else_found it_block_statement x u)
  from find_end_of_indented_block_bounds[OF 14(2)[unfolded 14(1)]] 14(1) show ?case by auto
next
  case (15 ss b e else_found it_block_statement x u)
  from find_end_of_indented_block_bounds[OF 15(2)[unfolded 15(1)]] 15(1) show ?case by auto
qed simp_all

declare check_syntax_range.simps [simp del]
declare check_syntax_for_while.simps [simp del]
declare check_syntax_for_try.simps [simp del]
declare check_syntax_for_if.simps [simp del]
declare check_syntax_for_if_loop.simps [simp del]

section \<open>Properties of the indentation pass\<close>

subsection \<open>One iteration\<close>

lemma indent_body_step:
  "fst (indent_body level err step) =
     step\<lparr>get_indentation_level := max 0 (table_level level (get_type step))\<rparr>"
  by (cases "get_type step") (simp_all add: indent_body_def table_level_def Let_def)

lemma indent_body_level:
  "0 \<le> level \<Longrightarrow>
   fst (snd (indent_body level err step)) = clamped_depth level (get_type step)"
  by (cases "get_type step")
     (auto simp add: indent_body_def table_depth_def clamped_depth_def Let_def
        max_indentation_level_def)

lemma indent_body_level_any_error:
  "fst (snd (indent_body level err step)) = fst (snd (indent_body level err' step))"
  by (cases "get_type step") (simp_all add: indent_body_def Let_def)

lemma indent_body_error_kept:
  "err \<noteq> [] \<Longrightarrow> snd (snd (indent_body level err step)) = err"
  by (cases "get_type step") (simp_all add: indent_body_def Let_def)

lemma indent_body_error_negative:
  "table_level level (get_type step) < 0 \<Longrightarrow>
   snd (snd (indent_body level [] step)) = ''Steps are not nested correctly''"
  by (cases "get_type step") (simp_all add: indent_body_def table_level_def Let_def)

lemma indent_body_by_type:
  "get_type step = get_type step' \<Longrightarrow>
   snd (indent_body level err step) = snd (indent_body level err step')"
  by (cases "get_type step'") (simp_all add: indent_body_def Let_def)

lemma clamped_depth_range:
  "0 \<le> clamped_depth depth ty \<and> clamped_depth depth ty \<le> max_indentation_level"
  by (simp add: clamped_depth_def max_indentation_level_def)

lemma table_level_range:
  "0 \<le> depth \<Longrightarrow> depth \<le> max_indentation_level \<Longrightarrow>
   - 1 \<le> table_level depth ty \<and> table_level depth ty \<le> max_indentation_level
   \<and> - 1 \<le> table_depth depth ty \<and> table_depth depth ty \<le> max_indentation_level + 1"
  by (simp add: table_level_def table_depth_def)

subsection \<open>The loop\<close>

lemma indent_loop_Cons:
  "indent_loop level err (step # rest) =
     (fst (indent_body level err step)
        # loop_steps (indent_loop (fst (snd (indent_body level err step)))
                        (snd (snd (indent_body level err step))) rest),
      loop_level (indent_loop (fst (snd (indent_body level err step)))
                        (snd (snd (indent_body level err step))) rest),
      loop_error (indent_loop (fst (snd (indent_body level err step)))
                        (snd (snd (indent_body level err step))) rest))"
  by (simp add: loop_steps_def loop_level_def loop_error_def split: prod.splits)

lemma indent_loop_types:
  "map get_type (loop_steps (indent_loop level err ss)) = map get_type ss"
proof (induction ss arbitrary: level err)
  case Nil
  show ?case by (simp add: loop_steps_def)
next
  case (Cons step rest)
  show ?case
    unfolding indent_loop_Cons
    by (simp add: loop_steps_def indent_body_step Cons.IH[unfolded loop_steps_def])
qed

lemma indent_loop_length:
  "length (loop_steps (indent_loop level err ss)) = length ss"
  using indent_loop_types[of level err ss, THEN arg_cong, of length] by simp

lemma indent_loop_depth:
  "0 \<le> level \<Longrightarrow>
   loop_level (indent_loop level err ss) = depth_after level (map get_type ss)"
proof (induction ss arbitrary: level err)
  case Nil
  show ?case by (simp add: loop_level_def)
next
  case (Cons step rest)
  have "0 \<le> clamped_depth level (get_type step)"
    using clamped_depth_range by simp
  from Cons.IH[OF this] Cons.prems show ?case
    unfolding indent_loop_Cons by (simp add: loop_level_def indent_body_level)
qed

lemma depth_after_range:
  "0 \<le> depth \<Longrightarrow> depth \<le> max_indentation_level \<Longrightarrow>
   0 \<le> depth_after depth tys \<and> depth_after depth tys \<le> max_indentation_level"
  by (induction tys arbitrary: depth) (simp_all add: clamped_depth_range)

lemma depth_after_append:
  "depth_after depth (xs @ ys) = depth_after (depth_after depth xs) ys"
  by (induction xs arbitrary: depth) simp_all

lemma indent_loop_nth_level:
  "0 \<le> level \<Longrightarrow> i < length ss \<Longrightarrow>
   get_indentation_level (loop_steps (indent_loop level err ss) ! i) =
     max 0 (table_level (depth_after level (take i (map get_type ss))) (get_type (ss ! i)))"
proof (induction ss arbitrary: level err i)
  case Nil
  then show ?case by simp
next
  case (Cons step rest)
  show ?case
  proof (cases i)
    case 0
    then show ?thesis
      unfolding indent_loop_Cons by (simp add: loop_steps_def indent_body_step)
  next
    case (Suc j)
    have nonneg: "0 \<le> clamped_depth level (get_type step)"
      using clamped_depth_range by simp
    from Suc Cons.prems have "j < length rest" by simp
    from Cons.IH[OF nonneg this] Suc Cons.prems(1) show ?thesis
      unfolding indent_loop_Cons by (simp add: loop_steps_def indent_body_level)
  qed
qed

lemma indent_loop_level_any_error:
  "loop_level (indent_loop level err ss) = loop_level (indent_loop level err' ss)
   \<and> map get_indentation_level (loop_steps (indent_loop level err ss)) =
       map get_indentation_level (loop_steps (indent_loop level err' ss))"
proof (induction ss arbitrary: level err err')
  case Nil
  show ?case by (simp add: loop_level_def loop_steps_def)
next
  case (Cons step rest)
  have same: "fst (snd (indent_body level err step)) = fst (snd (indent_body level err' step))"
    by (rule indent_body_level_any_error)
  show ?case
    unfolding indent_loop_Cons
    using Cons.IH[of "fst (snd (indent_body level err' step))"
        "snd (snd (indent_body level err step))" "snd (snd (indent_body level err' step))"]
    by (simp add: loop_level_def loop_steps_def same indent_body_step)
qed

lemma indent_loop_error_kept:
  "err \<noteq> [] \<Longrightarrow> loop_error (indent_loop level err ss) = err"
proof (induction ss arbitrary: level)
  case Nil
  show ?case by (simp add: loop_error_def)
next
  case (Cons step rest)
  from Cons.IH[OF Cons.prems] show ?case
    unfolding indent_loop_Cons
    by (simp add: loop_error_def indent_body_error_kept[OF Cons.prems])
qed

lemma indent_loop_append:
  "indent_loop level err (xs @ ys) =
     (loop_steps (indent_loop level err xs)
        @ loop_steps (indent_loop (loop_level (indent_loop level err xs))
                        (loop_error (indent_loop level err xs)) ys),
      loop_level (indent_loop (loop_level (indent_loop level err xs))
                        (loop_error (indent_loop level err xs)) ys),
      loop_error (indent_loop (loop_level (indent_loop level err xs))
                        (loop_error (indent_loop level err xs)) ys))"
proof (induction xs arbitrary: level err)
  case Nil
  show ?case by (simp add: loop_steps_def loop_level_def loop_error_def)
next
  case (Cons step rest)
  show ?case
    unfolding append_Cons indent_loop_Cons Cons.IH
    by (simp add: loop_steps_def loop_level_def loop_error_def)
qed

lemma indent_loop_by_types:
  "map get_type ss = map get_type ss' \<Longrightarrow>
   loop_level (indent_loop level err ss) = loop_level (indent_loop level err ss')
   \<and> loop_error (indent_loop level err ss) = loop_error (indent_loop level err ss')
   \<and> map get_indentation_level (loop_steps (indent_loop level err ss)) =
       map get_indentation_level (loop_steps (indent_loop level err ss'))"
proof (induction ss arbitrary: ss' level err)
  case Nil
  then show ?case by (simp add: loop_level_def loop_error_def loop_steps_def)
next
  case (Cons step rest)
  from Cons.prems obtain step' rest' where ss': "ss' = step' # rest'"
    and ty: "get_type step = get_type step'" and tys: "map get_type rest = map get_type rest'"
    by (cases ss') auto
  note same = indent_body_by_type[OF ty, of level err]
  from Cons.IH[OF tys, of "fst (snd (indent_body level err step'))"
      "snd (snd (indent_body level err step'))"]
  show ?case
    unfolding ss' indent_loop_Cons
    by (simp add: loop_level_def loop_error_def loop_steps_def same indent_body_step ty)
qed

lemma indent_loop_again:
  "indent_loop level err (loop_steps (indent_loop level err ss)) = indent_loop level err ss"
proof (induction ss arbitrary: level err)
  case Nil
  show ?case by (simp add: loop_steps_def)
next
  case (Cons step rest)
  let ?r = "indent_body level err step"
  have ty: "get_type (fst ?r) = get_type step"
    by (simp add: indent_body_step)
  have body: "indent_body level err (fst ?r) = ?r"
  proof (rule prod_eqI)
    show "fst (indent_body level err (fst ?r)) = fst ?r"
      by (simp add: indent_body_step)
    show "snd (indent_body level err (fst ?r)) = snd ?r"
      by (rule indent_body_by_type[OF ty])
  qed
  have "indent_loop level err (fst ?r # loop_steps (indent_loop (fst (snd ?r)) (snd (snd ?r)) rest))
        = indent_loop level err (step # rest)"
    unfolding indent_loop_Cons[of level err "fst ?r"] indent_loop_Cons[of level err step] body
      Cons.IH
    by simp
  then show ?case
    unfolding indent_loop_Cons[of level err step] loop_steps_def[of "(a, b)" for a b]
    by simp
qed

lemma indent_unfold:
  "indent seq =
     seq\<lparr>steps := loop_steps (indent_loop 0 [] (steps seq)),
         indentation_error :=
           (if loop_level (indent_loop 0 [] (steps seq)) \<noteq> 0
               \<and> loop_error (indent_loop 0 [] (steps seq)) = []
            then ''Steps are not nested correctly (there must be one END ''
                 @ ''for each IF, TRY, WHILE)''
            else loop_error (indent_loop 0 [] (steps seq)))\<rparr>"
  by (simp add: indent_def loop_steps_def loop_level_def loop_error_def split: prod.splits)

text \<open>
  Every level the pass computes stays in the range of a \<open>short\<close>, and every
  level it stores is one that \<open>set_indentation_level\<close> accepts.
\<close>

lemma indent_loop_level_range:
  "0 \<le> loop_level (indent_loop 0 err ss)
   \<and> loop_level (indent_loop 0 err ss) \<le> max_indentation_level"
  using depth_after_range[of 0 "map get_type ss"]
  by (simp add: indent_loop_depth max_indentation_level_def)

lemma indent_loop_levels_range:
  assumes "i < length ss"
  shows "0 \<le> get_indentation_level (loop_steps (indent_loop 0 err ss) ! i)
   \<and> get_indentation_level (loop_steps (indent_loop 0 err ss) ! i) \<le> max_indentation_level"
proof -
  let ?d = "depth_after 0 (take i (map get_type ss))"
  have "0 \<le> ?d \<and> ?d \<le> max_indentation_level"
    using depth_after_range[of 0 "take i (map get_type ss)"]
    by (simp add: max_indentation_level_def)
  with table_level_range[of ?d "get_type (ss ! i)"] show ?thesis
    by (simp add: indent_loop_nth_level[OF _ assms])
qed

subsection \<open>Levels assigned by the pass\<close>

text \<open>
  Claim C5, as the specification states it: the levels are those of the
  table run with an unbounded depth counter (\<open>table_levels\<close>).  The code
  differs: after a leading \<open>END\<close> the table's depth is \<open>-1\<close>, so the table
  gives the \<open>ACTION\<close> of \<open>END, IF, ACTION\<close> level 0, while \<open>indent()\<close> has reset
  the depth to 0 and gives it level 1; the 22nd of 22 nested \<open>IF\<close>s gets
  level 20 from \<open>indent()\<close>, where the table gives 21; and after 21 nested
  \<open>IF\<close>s the 21st \<open>END\<close> has a negative level, which is clamped to 0, but the
  error recorded is the earlier one about the depth.
\<close>

theorem indent_table_levels_counterexample:
  "map get_indentation_level
       (steps (indent (mk_sequence [type_end, type_if, type_action]))) = [0, 0, 1]
   \<and> table_levels 0 [type_end, type_if, type_action] = [0, 0, 0]
   \<and> get_indentation_level (steps (indent (mk_sequence (replicate 22 type_if))) ! 21) = 20
   \<and> table_levels 0 (replicate 22 type_if) ! 21 = 21
   \<and> get_indentation_level
        (steps (indent (mk_sequence (replicate 21 type_if @ replicate 21 type_end))) ! 41) = 0
   \<and> indentation_error (indent (mk_sequence (replicate 21 type_if @ replicate 21 type_end)))
       = ''Steps are nested too deeply (max. level: 20)''"
  by code_simp

text \<open>
  Claim C5, amended.  The pass keeps the step types and gives step \<open>i\<close> the
  level of the table for its type at the current depth, a negative level
  being clamped to 0; the current depth is the table's depth held between 0
  and \<open>max_indentation_level\<close> (\<open>depth_after\<close> over the steps before \<open>i\<close>).
  Where the table's level is negative, the level is 0 and an error is
  recorded: it is ``Steps are not nested correctly'' when no error was
  recorded by the steps before \<open>i\<close>.
\<close>

theorem indent_assigns_table_levels:
  assumes "i < length (steps seq)"
  shows "length (steps (indent seq)) = length (steps seq)
    \<and> get_type (steps (indent seq) ! i) = get_type (steps seq ! i)
    \<and> get_indentation_level (steps (indent seq) ! i) =
        max 0 (table_level (depth_after 0 (take i (map get_type (steps seq))))
                 (get_type (steps seq ! i)))
    \<and> (table_level (depth_after 0 (take i (map get_type (steps seq))))
          (get_type (steps seq ! i)) < 0 \<longrightarrow>
        get_indentation_level (steps (indent seq) ! i) = 0
        \<and> indentation_error (indent seq) \<noteq> []
        \<and> (loop_error (indent_loop 0 [] (take i (steps seq))) = [] \<longrightarrow>
             indentation_error (indent seq) = ''Steps are not nested correctly''))"
proof -
  let ?ss = "steps seq"
  let ?d = "depth_after 0 (take i (map get_type ?ss))"
  let ?pre = "indent_loop 0 [] (take i ?ss)"
  have len: "length (steps (indent seq)) = length ?ss"
    by (simp add: indent_unfold indent_loop_length)
  have "map get_type (steps (indent seq)) ! i = map get_type ?ss ! i"
    by (simp add: indent_unfold indent_loop_types)
  with assms len have ty: "get_type (steps (indent seq) ! i) = get_type (?ss ! i)"
    by simp
  have lvl: "get_indentation_level (steps (indent seq) ! i)
               = max 0 (table_level ?d (get_type (?ss ! i)))"
    using indent_loop_nth_level[OF _ assms, of 0 "[]"] by (simp add: indent_unfold)
  have neg: "indentation_error (indent seq) \<noteq> []
      \<and> (loop_error ?pre = [] \<longrightarrow>
           indentation_error (indent seq) = ''Steps are not nested correctly'')"
    if n: "table_level ?d (get_type (?ss ! i)) < 0"
  proof -
    have split: "?ss = take i ?ss @ (?ss ! i) # drop (Suc i) ?ss"
      using assms by (simp add: id_take_nth_drop)
    have d: "loop_level ?pre = ?d"
      by (simp add: indent_loop_depth take_map)
    let ?body = "indent_body ?d (loop_error ?pre) (?ss ! i)"
    have err: "loop_error (indent_loop 0 [] ?ss)
                 = loop_error (indent_loop (fst (snd ?body)) (snd (snd ?body)) (drop (Suc i) ?ss))"
      by (subst split, subst indent_loop_append, subst indent_loop_Cons)
         (simp add: loop_error_def d)
    have after: "snd (snd ?body) \<noteq> []
        \<and> (loop_error ?pre = [] \<longrightarrow> snd (snd ?body) = ''Steps are not nested correctly'')"
    proof (cases "loop_error ?pre = []")
      case True
      with indent_body_error_negative[OF n] show ?thesis by simp
    next
      case False
      with indent_body_error_kept[OF False, of ?d "?ss ! i"] show ?thesis by simp
    qed
    then have "loop_error (indent_loop 0 [] ?ss) = snd (snd ?body)"
      using err indent_loop_error_kept by metis
    with after show ?thesis by (simp add: indent_unfold)
  qed
  from len ty lvl neg show ?thesis by simp
qed

theorem indent_assigns_table_levels_witness:
  "get_indentation_level
       (steps (indent (mk_sequence [type_if, type_action, type_else, type_action, type_end])) ! 2) = 0
   \<and> get_indentation_level
       (steps (indent (mk_sequence [type_if, type_action, type_else, type_action, type_end])) ! 3) = 1
   \<and> indentation_error (indent (mk_sequence [type_action, type_catch]))
       = ''Steps are not nested correctly''"
  using
    indent_assigns_table_levels
      [of 2 "mk_sequence [type_if, type_action, type_else, type_action, type_end]"]
    indent_assigns_table_levels
      [of 3 "mk_sequence [type_if, type_action, type_else, type_action, type_end]"]
    indent_assigns_table_levels [of 1 "mk_sequence [type_action, type_catch]"]
  by (simp add: mk_sequence_def mk_step_def table_level_def table_depth_def clamped_depth_def
        max_indentation_level_def loop_error_def indent_body_def)

subsection \<open>The recorded error\<close>

text \<open>
  Claim C6.  The pass has no error result and keeps the first error only.
  The error recorded before the pass has no influence (it is cleared at the
  start); once the steps \<open>xs\<close> have recorded an error, the pass over \<open>xs @ ys\<close>
  ends with that same error, whatever \<open>ys\<close> is and whatever the final depth;
  the depth and the levels do not depend on the error recorded so far; and
  the message for a nonzero final depth is recorded exactly when the loop
  recorded nothing.
\<close>

theorem indent_keeps_first_error:
  "indent (seq\<lparr>indentation_error := old\<rparr>) = indent seq
   \<and> (loop_error (indent_loop 0 [] xs) \<noteq> [] \<longrightarrow>
        indentation_error (indent (seq\<lparr>steps := xs @ ys\<rparr>))
          = loop_error (indent_loop 0 [] xs))
   \<and> loop_level (indent_loop level err ss) = loop_level (indent_loop level err' ss)
   \<and> map get_indentation_level (loop_steps (indent_loop level err ss))
       = map get_indentation_level (loop_steps (indent_loop level err' ss))
   \<and> indentation_error (indent seq) =
       (if loop_error (indent_loop 0 [] (steps seq)) \<noteq> []
        then loop_error (indent_loop 0 [] (steps seq))
        else if loop_level (indent_loop 0 [] (steps seq)) \<noteq> 0
        then ''Steps are not nested correctly (there must be one END for each IF, TRY, WHILE)''
        else [])"
proof -
  have cleared: "indent (seq\<lparr>indentation_error := old\<rparr>) = indent seq"
    by (simp add: indent_unfold)
  have first: "indentation_error (indent (seq\<lparr>steps := xs @ ys\<rparr>))
                 = loop_error (indent_loop 0 [] xs)"
    if "loop_error (indent_loop 0 [] xs) \<noteq> []"
  proof -
    have "loop_error (indent_loop 0 [] (xs @ ys)) = loop_error (indent_loop 0 [] xs)"
      by (subst indent_loop_append) (simp add: loop_error_def[of "(a, b)" for a b]
            indent_loop_error_kept[OF that])
    with that show ?thesis by (simp add: indent_unfold)
  qed
  have final: "indentation_error (indent seq) =
       (if loop_error (indent_loop 0 [] (steps seq)) \<noteq> []
        then loop_error (indent_loop 0 [] (steps seq))
        else if loop_level (indent_loop 0 [] (steps seq)) \<noteq> 0
        then ''Steps are not nested correctly (there must be one END for each IF, TRY, WHILE)''
        else [])"
    by (simp add: indent_unfold)
  from cleared first indent_loop_level_any_error[of level err ss err'] final
  show ?thesis by blast
qed

theorem indent_keeps_first_error_witness:
  "indentation_error
       (indent (mk_sequence ([type_end] @ replicate 22 type_if)))
     = ''Steps are not nested correctly''
   \<and> indentation_error (indent (mk_sequence [type_if]))
     = ''Steps are not nested correctly (there must be one END for each IF, TRY, WHILE)''"
proof -
  have e: "loop_error (indent_loop 0 [] (map mk_step [type_end]))
             = ''Steps are not nested correctly''"
    by (simp add: loop_error_def indent_body_def mk_step_def)
  have "indentation_error
          (indent ((mk_sequence [])\<lparr>steps := map mk_step [type_end] @ map mk_step (replicate 22 type_if)\<rparr>))
        = ''Steps are not nested correctly''"
    using indent_keeps_first_error
            [where seq = "mk_sequence []" and xs = "map mk_step [type_end]"
               and ys = "map mk_step (replicate 22 type_if)" and old = "[]"
               and level = 0 and err = "[]" and err' = "[]" and ss = "[] :: Step list"]
          e
    by simp
  moreover have "indentation_error (indent (mk_sequence [type_if]))
     = ''Steps are not nested correctly (there must be one END for each IF, TRY, WHILE)''"
    using indent_keeps_first_error
            [where seq = "mk_sequence [type_if]" and xs = "[]" and ys = "[]" and old = "[]"
               and level = 0 and err = "[]" and err' = "[]" and ss = "[] :: Step list"]
    by (simp add: mk_sequence_def mk_step_def loop_error_def loop_level_def indent_body_def
          max_indentation_level_def)
  ultimately show ?thesis by (simp add: mk_sequence_def)
qed

subsection \<open>Running the pass again\<close>

text \<open>
  Claim C9.  Indentation assignment is idempotent, and its result depends
  on the step types only: two sequences with the same list of step types,
  whatever their levels, payloads and recorded errors before, get the same
  levels and the same recorded error.
\<close>

theorem indent_idempotent_by_types:
  "indent (indent seq) = indent seq
   \<and> (map get_type (steps seq) = map get_type (steps seq') \<longrightarrow>
        map get_indentation_level (steps (indent seq))
          = map get_indentation_level (steps (indent seq'))
        \<and> indentation_error (indent seq) = indentation_error (indent seq'))"
proof -
  have "indent (indent seq) = indent seq"
    by (simp add: indent_unfold indent_loop_again)
  moreover have "map get_indentation_level (steps (indent seq))
          = map get_indentation_level (steps (indent seq'))
        \<and> indentation_error (indent seq) = indentation_error (indent seq')"
    if "map get_type (steps seq) = map get_type (steps seq')"
    using indent_loop_by_types[OF that, of 0 "[]"] by (simp add: indent_unfold)
  ultimately show ?thesis by blast
qed

theorem indent_idempotent_by_types_witness:
  "indent (indent (mk_sequence [type_try, type_action, type_catch, type_end]))
     = indent (mk_sequence [type_try, type_action, type_catch, type_end])
   \<and> map get_indentation_level
        (steps (indent \<lparr>label = ''other'',
                        steps = [\<lparr>get_type = type_try, get_indentation_level = 7\<rparr>,
                                 \<lparr>get_type = type_action, get_indentation_level = 3\<rparr>,
                                 \<lparr>get_type = type_catch, get_indentation_level = 5\<rparr>,
                                 \<lparr>get_type = type_end, get_indentation_level = 1\<rparr>],
                        indentation_error = ''stale''\<rparr>))
     = [0, 1, 0, 0]"
proof -
  let ?a = "mk_sequence [type_try, type_action, type_catch, type_end]"
  let ?b = "\<lparr>label = ''other'',
             steps = [\<lparr>get_type = type_try, get_indentation_level = 7\<rparr>,
                      \<lparr>get_type = type_action, get_indentation_level = 3\<rparr>,
                      \<lparr>get_type = type_catch, get_indentation_level = 5\<rparr>,
                      \<lparr>get_type = type_end, get_indentation_level = 1\<rparr>],
             indentation_error = ''stale''\<rparr>"
  have tys: "map get_type (steps ?b) = map get_type (steps ?a)"
    by (simp add: mk_sequence_def mk_step_def)
  have a: "map get_indentation_level (steps (indent ?a)) = [0, 1, 0, 0]"
    by (simp add: mk_sequence_def mk_step_def indent_def indent_body_def
          max_indentation_level_def)
  from indent_idempotent_by_types [of ?a ?b] indent_idempotent_by_types [of ?b ?a] tys a
  show ?thesis by simp
qed

section \<open>Properties of the syntax check\<close>

subsection \<open>The block boundary\<close>

lemma find_end_of_indented_block_level:
  "find_end_of_indented_block ss b e l \<noteq> e \<Longrightarrow>
   get_indentation_level (ss ! find_end_of_indented_block ss b e l) < l"
proof (induction ss b e l rule: find_end_of_indented_block.induct)
  case (1 ss b e l)
  show ?case
  proof (cases "b < e")
    case False
    with "1.prems" show ?thesis
      by (simp add: find_end_of_indented_block.simps[of ss b e l])
  next
    case True
    show ?thesis
    proof (cases "get_indentation_level (ss ! b) < l")
      case here: True
      with True show ?thesis
        by (simp add: find_end_of_indented_block.simps[of ss b e l])
    next
      case further: False
      with True have eq: "find_end_of_indented_block ss b e l
                            = find_end_of_indented_block ss (b + 1) e l"
        by (simp add: find_end_of_indented_block.simps[of ss b e l])
      from "1.IH"[OF True further] "1.prems" show ?thesis
        unfolding eq by simp
    qed
  qed
qed

lemma find_end_of_indented_block_inside:
  "b \<le> i \<Longrightarrow> i < find_end_of_indented_block ss b e l \<Longrightarrow>
   l \<le> get_indentation_level (ss ! i)"
proof (induction ss b e l rule: find_end_of_indented_block.induct)
  case (1 ss b e l)
  show ?case
  proof (cases "b < e")
    case False
    with "1.prems" show ?thesis
      by (simp add: find_end_of_indented_block.simps[of ss b e l])
  next
    case True
    show ?thesis
    proof (cases "get_indentation_level (ss ! b) < l")
      case here: True
      with True "1.prems" show ?thesis
        by (simp add: find_end_of_indented_block.simps[of ss b e l])
    next
      case further: False
      with True have eq: "find_end_of_indented_block ss b e l
                            = find_end_of_indented_block ss (b + 1) e l"
        by (simp add: find_end_of_indented_block.simps[of ss b e l])
      show ?thesis
      proof (cases "i = b")
        case True
        with further show ?thesis by simp
      next
        case False
        with "1.prems"(1) have "b + 1 \<le> i" by simp
        from "1.IH"[OF True further this] "1.prems"(2) show ?thesis
          unfolding eq by simp
      qed
    qed
  qed
qed

text \<open>
  The boundary found behind position \<open>p\<close> for an opener of level \<open>L\<close>: it lies
  behind \<open>p\<close> and before the end bound, its level is at most \<open>L\<close>, and every
  step between \<open>p\<close> and the boundary is deeper than \<open>L\<close>.
\<close>

lemma find_end_of_indented_block_boundary:
  assumes "x = find_end_of_indented_block ss (p + 1) e (L + 1)" and "x \<noteq> e"
  shows "p < x" and "x < e" and "get_indentation_level (ss ! x) \<le> L"
    and "\<And>i. p < i \<Longrightarrow> i < x \<Longrightarrow> L < get_indentation_level (ss ! i)"
proof -
  from assms have ne: "find_end_of_indented_block ss (p + 1) e (L + 1) \<noteq> e" by simp
  from find_end_of_indented_block_bounds[OF ne] assms(1) show "p < x" and "x < e"
    by simp_all
  from find_end_of_indented_block_level[OF ne] assms(1)
  show "get_indentation_level (ss ! x) \<le> L" by simp
  fix i assume "p < i" and "i < x"
  with find_end_of_indented_block_inside[of "p + 1" i ss e "L + 1"] assms(1)
  show "L < get_indentation_level (ss ! i)" by simp
qed

subsection \<open>The scan\<close>

lemma check_syntax_range_done:
  "e \<le> b \<Longrightarrow> check_syntax_range ss b e = Inr ()"
  by (simp add: check_syntax_range.simps[of ss b e])

lemma check_syntax_range_action:
  "b < e \<Longrightarrow> get_type (ss ! b) = type_action \<Longrightarrow>
   check_syntax_range ss b e = check_syntax_range ss (b + 1) e"
  by (simp add: check_syntax_range.simps[of ss b e])

lemma check_syntax_range_skip_actions:
  "b \<le> step \<Longrightarrow> step \<le> e \<Longrightarrow>
   \<forall>i. b \<le> i \<and> i < step \<longrightarrow> get_type (ss ! i) = type_action \<Longrightarrow>
   check_syntax_range ss b e = check_syntax_range ss step e"
proof (induction "step - b" arbitrary: b)
  case 0
  then show ?case by simp
next
  case (Suc n)
  then have "b < e" and "get_type (ss ! b) = type_action" by auto
  then have "check_syntax_range ss b e = check_syntax_range ss (b + 1) e"
    by (rule check_syntax_range_action)
  also have "\<dots> = check_syntax_range ss step e"
    using Suc.hyps(2) Suc.prems by (intro Suc.hyps(1)) auto
  finally show ?case .
qed

subsection \<open>\<open>WHILE\<close>\<close>

text \<open>
  Claim C3.  When the scan is at a \<open>While\<close> step, it checks the construct and
  resumes where the construct ends.  The boundary \<open>block_end\<close> is the first
  step behind the \<open>While\<close> that is not deeper than it.  If there is none
  before the end of the range, or it is not an \<open>End\<close>, the error ``WHILE
  without matching END'' is raised for the position of the \<open>While\<close> step.
  Otherwise the body between them is validated recursively, an error in it
  is passed on, and on success scanning resumes behind the \<open>End\<close>.
\<close>

theorem check_syntax_for_while_matches_end:
  assumes "block_end = find_end_of_indented_block ss (b + 1) e
                         (get_indentation_level (ss ! b) + 1)"
  shows "(b < e \<and> get_type (ss ! b) = type_while \<longrightarrow>
            check_syntax_range ss b e =
              (case check_syntax_for_while ss b e of
                 Inl err \<Rightarrow> Inl err
               | Inr resume \<Rightarrow> check_syntax_range ss resume e))
    \<and> (block_end = e \<or> get_type (ss ! block_end) \<noteq> type_end \<longrightarrow>
          check_syntax_for_while ss b e =
            Inl (Error (''[syntax check] Step '' @ show_nat (b + 1)
                        @ '': WHILE without matching END'')))
    \<and> (block_end \<noteq> e \<and> get_type (ss ! block_end) = type_end \<longrightarrow>
          b < block_end \<and> block_end < e
          \<and> get_indentation_level (ss ! block_end) \<le> get_indentation_level (ss ! b)
          \<and> (\<forall>i. b < i \<and> i < block_end \<longrightarrow>
                 get_indentation_level (ss ! b) < get_indentation_level (ss ! i))
          \<and> (\<forall>err. check_syntax_range ss (b + 1) block_end = Inl err \<longrightarrow>
                 check_syntax_for_while ss b e = Inl err)
          \<and> (check_syntax_range ss (b + 1) block_end = Inr () \<longrightarrow>
                 check_syntax_for_while ss b e = Inr (block_end + 1)))"
proof -
  have scan: "check_syntax_range ss b e =
              (case check_syntax_for_while ss b e of
                 Inl err \<Rightarrow> Inl err
               | Inr resume \<Rightarrow> check_syntax_range ss resume e)"
    if "b < e \<and> get_type (ss ! b) = type_while"
    using that by (simp add: check_syntax_range.simps[of ss b e])
  have unmatched: "check_syntax_for_while ss b e =
            Inl (Error (''[syntax check] Step '' @ show_nat (b + 1)
                        @ '': WHILE without matching END''))"
    if "block_end = e \<or> get_type (ss ! block_end) \<noteq> type_end"
    using that assms
    by (auto simp add: check_syntax_for_while.simps throw_syntax_error_for_step_def Let_def)
  have matched: "b < block_end \<and> block_end < e
          \<and> get_indentation_level (ss ! block_end) \<le> get_indentation_level (ss ! b)
          \<and> (\<forall>i. b < i \<and> i < block_end \<longrightarrow>
                 get_indentation_level (ss ! b) < get_indentation_level (ss ! i))
          \<and> (\<forall>err. check_syntax_range ss (b + 1) block_end = Inl err \<longrightarrow>
                 check_syntax_for_while ss b e = Inl err)
          \<and> (check_syntax_range ss (b + 1) block_end = Inr () \<longrightarrow>
                 check_syntax_for_while ss b e = Inr (block_end + 1))"
    if ok: "block_end \<noteq> e \<and> get_type (ss ! block_end) = type_end"
  proof -
    note bnd = find_end_of_indented_block_boundary[OF assms conjunct1[OF ok]]
    have body: "check_syntax_for_while ss b e =
                  (case check_syntax_range ss (b + 1) block_end of
                     Inl err \<Rightarrow> Inl err
                   | Inr u \<Rightarrow> Inr (block_end + 1))"
      using ok unfolding assms
      by (simp add: check_syntax_for_while.simps Let_def split: sum.splits)
    from bnd(1-3) bnd(4) body show ?thesis by simp
  qed
  from scan unmatched matched show ?thesis by blast
qed

theorem check_syntax_for_while_matches_end_witness:
  "check_syntax_for_while [step_at type_while 0, step_at type_action 1, step_at type_end 0] 0 3
     = Inr 3
   \<and> check_syntax_range [step_at type_while 0, step_at type_action 1, step_at type_end 0] 0 3
     = Inr ()
   \<and> check_syntax_for_while [step_at type_while 0, step_at type_action 1, step_at type_else 0] 0 3
     = Inl (Error ''[syntax check] Step 1: WHILE without matching END'')
   \<and> check_syntax_for_while [step_at type_while 0, step_at type_action 1] 0 2
     = Inl (Error ''[syntax check] Step 1: WHILE without matching END'')"
proof -
  let ?ok = "[step_at type_while 0, step_at type_action 1, step_at type_end 0]"
  let ?else = "[step_at type_while 0, step_at type_action 1, step_at type_else 0]"
  let ?open = "[step_at type_while 0, step_at type_action 1]"
  have b1: "find_end_of_indented_block ?ok (0 + 1) 3 (get_indentation_level (?ok ! 0) + 1) = 2"
    and b2: "find_end_of_indented_block ?else (0 + 1) 3 (get_indentation_level (?else ! 0) + 1) = 2"
    and b3: "find_end_of_indented_block ?open (0 + 1) 2 (get_indentation_level (?open ! 0) + 1) = 2"
    by (simp_all add: find_end_of_indented_block.simps step_at_def)
  have body: "check_syntax_range ?ok (0 + 1) 2 = Inr ()"
    and rest: "check_syntax_range ?ok 3 3 = Inr ()"
    by (simp_all add: check_syntax_range.simps step_at_def)
  from check_syntax_for_while_matches_end[OF b1[symmetric]] body rest
  have "check_syntax_for_while ?ok 0 3 = Inr 3" and "check_syntax_range ?ok 0 3 = Inr ()"
    by (simp_all add: step_at_def)
  moreover from check_syntax_for_while_matches_end[OF b2[symmetric]]
  have "check_syntax_for_while ?else 0 3
          = Inl (Error ''[syntax check] Step 1: WHILE without matching END'')"
    by (simp add: step_at_def show_nat.simps digit_char_def)
  moreover from check_syntax_for_while_matches_end[OF b3[symmetric]]
  have "check_syntax_for_while ?open 0 2
          = Inl (Error ''[syntax check] Step 1: WHILE without matching END'')"
    by (simp add: step_at_def show_nat.simps digit_char_def)
  ultimately show ?thesis by simp
qed

subsection \<open>\<open>TRY\<close>\<close>

text \<open>
  Claim C2.  When the scan is at a \<open>Try\<close> step, it checks the construct and
  resumes where the construct ends.  The first boundary behind the \<open>Try\<close>
  must exist and be a \<open>Catch\<close>, else ``TRY without matching CATCH'' is raised
  for the position of the \<open>Try\<close>; the steps between them are validated
  recursively; the boundary found behind the \<open>Catch\<close> must exist and be an
  \<open>End\<close>, else ``TRY...CATCH without matching END'' is raised for the position
  of the \<open>Try\<close>; the steps between \<open>Catch\<close> and \<open>End\<close> are validated
  recursively; on success scanning resumes behind the \<open>End\<close>.
\<close>

theorem check_syntax_for_try_matches_catch_end:
  assumes "it_catch = find_end_of_indented_block ss (b + 1) e
                        (get_indentation_level (ss ! b) + 1)"
    and "it_catch_block_end = find_end_of_indented_block ss (it_catch + 1) e
                                (get_indentation_level (ss ! b) + 1)"
  shows "(b < e \<and> get_type (ss ! b) = type_try \<longrightarrow>
            check_syntax_range ss b e =
              (case check_syntax_for_try ss b e of
                 Inl err \<Rightarrow> Inl err
               | Inr resume \<Rightarrow> check_syntax_range ss resume e))
    \<and> (it_catch = e \<or> get_type (ss ! it_catch) \<noteq> type_catch \<longrightarrow>
          check_syntax_for_try ss b e =
            Inl (Error (''[syntax check] Step '' @ show_nat (b + 1)
                        @ '': TRY without matching CATCH'')))
    \<and> (it_catch \<noteq> e \<and> get_type (ss ! it_catch) = type_catch \<longrightarrow>
          b < it_catch \<and> it_catch < e
          \<and> (\<forall>err. check_syntax_range ss (b + 1) it_catch = Inl err \<longrightarrow>
                 check_syntax_for_try ss b e = Inl err)
          \<and> (check_syntax_range ss (b + 1) it_catch = Inr () \<longrightarrow>
               (it_catch_block_end = e \<or> get_type (ss ! it_catch_block_end) \<noteq> type_end \<longrightarrow>
                  check_syntax_for_try ss b e =
                    Inl (Error (''[syntax check] Step '' @ show_nat (b + 1)
                                @ '': TRY...CATCH without matching END'')))
               \<and> (it_catch_block_end \<noteq> e \<and> get_type (ss ! it_catch_block_end) = type_end \<longrightarrow>
                    it_catch < it_catch_block_end \<and> it_catch_block_end < e
                    \<and> (\<forall>err. check_syntax_range ss (it_catch + 1) it_catch_block_end = Inl err
                           \<longrightarrow> check_syntax_for_try ss b e = Inl err)
                    \<and> (check_syntax_range ss (it_catch + 1) it_catch_block_end = Inr () \<longrightarrow>
                          check_syntax_for_try ss b e = Inr (it_catch_block_end + 1)))))"
proof -
  have scan: "check_syntax_range ss b e =
              (case check_syntax_for_try ss b e of
                 Inl err \<Rightarrow> Inl err
               | Inr resume \<Rightarrow> check_syntax_range ss resume e)"
    if "b < e \<and> get_type (ss ! b) = type_try"
    using that by (simp add: check_syntax_range.simps[of ss b e])
  have no_catch: "check_syntax_for_try ss b e =
            Inl (Error (''[syntax check] Step '' @ show_nat (b + 1)
                        @ '': TRY without matching CATCH''))"
    if "it_catch = e \<or> get_type (ss ! it_catch) \<noteq> type_catch"
    using that unfolding assms
    by (auto simp add: check_syntax_for_try.simps throw_syntax_error_for_step_def Let_def)
  have catch_found: "b < it_catch \<and> it_catch < e
          \<and> (\<forall>err. check_syntax_range ss (b + 1) it_catch = Inl err \<longrightarrow>
                 check_syntax_for_try ss b e = Inl err)
          \<and> (check_syntax_range ss (b + 1) it_catch = Inr () \<longrightarrow>
               (it_catch_block_end = e \<or> get_type (ss ! it_catch_block_end) \<noteq> type_end \<longrightarrow>
                  check_syntax_for_try ss b e =
                    Inl (Error (''[syntax check] Step '' @ show_nat (b + 1)
                                @ '': TRY...CATCH without matching END'')))
               \<and> (it_catch_block_end \<noteq> e \<and> get_type (ss ! it_catch_block_end) = type_end \<longrightarrow>
                    it_catch < it_catch_block_end \<and> it_catch_block_end < e
                    \<and> (\<forall>err. check_syntax_range ss (it_catch + 1) it_catch_block_end = Inl err
                           \<longrightarrow> check_syntax_for_try ss b e = Inl err)
                    \<and> (check_syntax_range ss (it_catch + 1) it_catch_block_end = Inr () \<longrightarrow>
                          check_syntax_for_try ss b e = Inr (it_catch_block_end + 1))))"
    if ok: "it_catch \<noteq> e \<and> get_type (ss ! it_catch) = type_catch"
  proof -
    note bnd = find_end_of_indented_block_boundary[OF assms(1) conjunct1[OF ok]]
    have first: "check_syntax_for_try ss b e = Inl err"
      if "check_syntax_range ss (b + 1) it_catch = Inl err" for err
      using ok that unfolding assms
      by (simp add: check_syntax_for_try.simps Let_def)
    have second: "check_syntax_for_try ss b e =
        (if it_catch_block_end = e \<or> get_type (ss ! it_catch_block_end) \<noteq> type_end
         then Inl (Error (''[syntax check] Step '' @ show_nat (b + 1)
                          @ '': TRY...CATCH without matching END''))
         else (case check_syntax_range ss (it_catch + 1) it_catch_block_end of
                 Inl err \<Rightarrow> Inl err
               | Inr u \<Rightarrow> Inr (it_catch_block_end + 1)))"
      if "check_syntax_range ss (b + 1) it_catch = Inr ()"
      using ok that unfolding assms
      by (simp add: check_syntax_for_try.simps throw_syntax_error_for_step_def Let_def
            split: sum.splits)
    have bnd2: "it_catch < it_catch_block_end \<and> it_catch_block_end < e"
      if "it_catch_block_end \<noteq> e"
      using find_end_of_indented_block_boundary(1,2)[OF assms(2) that] by simp
    from bnd(1,2) first second bnd2 show ?thesis by (simp split: sum.splits)
  qed
  from scan no_catch catch_found show ?thesis by blast
qed

theorem check_syntax_for_try_matches_catch_end_witness:
  "check_syntax_for_try
       [step_at type_try 0, step_at type_action 1, step_at type_catch 0,
        step_at type_action 1, step_at type_end 0] 0 5 = Inr 5
   \<and> check_syntax_for_try
       [step_at type_try 0, step_at type_action 1, step_at type_catch 0,
        step_at type_catch 0, step_at type_end 0] 0 5
     = Inl (Error ''[syntax check] Step 1: TRY...CATCH without matching END'')
   \<and> check_syntax_for_try [step_at type_try 0, step_at type_end 0] 0 2
     = Inl (Error ''[syntax check] Step 1: TRY without matching CATCH'')"
proof -
  let ?ok = "[step_at type_try 0, step_at type_action 1, step_at type_catch 0,
              step_at type_action 1, step_at type_end 0]"
  let ?two = "[step_at type_try 0, step_at type_action 1, step_at type_catch 0,
               step_at type_catch 0, step_at type_end 0]"
  let ?none = "[step_at type_try 0, step_at type_end 0]"
  have b1: "find_end_of_indented_block ?ok (0 + 1) 5 (get_indentation_level (?ok ! 0) + 1) = 2"
    and b2: "find_end_of_indented_block ?ok (2 + 1) 5 (get_indentation_level (?ok ! 0) + 1) = 4"
    and c1: "find_end_of_indented_block ?two (0 + 1) 5 (get_indentation_level (?two ! 0) + 1) = 2"
    and c2: "find_end_of_indented_block ?two (2 + 1) 5 (get_indentation_level (?two ! 0) + 1) = 3"
    and d1: "find_end_of_indented_block ?none (0 + 1) 2 (get_indentation_level (?none ! 0) + 1) = 1"
    and d2: "find_end_of_indented_block ?none (1 + 1) 2 (get_indentation_level (?none ! 0) + 1) = 2"
    by (simp_all add: find_end_of_indented_block.simps step_at_def)
  have body: "check_syntax_range ?ok (0 + 1) 2 = Inr ()"
    "check_syntax_range ?ok (2 + 1) 4 = Inr ()"
    "check_syntax_range ?two (0 + 1) 2 = Inr ()"
    by (simp_all add: check_syntax_range.simps step_at_def)
  from check_syntax_for_try_matches_catch_end[OF b1[symmetric] b2[symmetric]] body
  have "check_syntax_for_try ?ok 0 5 = Inr 5"
    by (simp add: step_at_def)
  moreover from check_syntax_for_try_matches_catch_end[OF c1[symmetric] c2[symmetric]] body
  have "check_syntax_for_try ?two 0 5
          = Inl (Error ''[syntax check] Step 1: TRY...CATCH without matching END'')"
    by (simp add: step_at_def show_nat.simps digit_char_def)
  moreover from check_syntax_for_try_matches_catch_end[OF d1[symmetric] d2[symmetric]]
  have "check_syntax_for_try ?none 0 2
          = Inl (Error ''[syntax check] Step 1: TRY without matching CATCH'')"
    by (simp add: step_at_def show_nat.simps digit_char_def)
  ultimately show ?thesis by simp
qed

subsection \<open>\<open>IF\<close>\<close>

text \<open>
  Claim C1.  When the scan is at an \<open>If\<close> step, it checks the construct,
  starting the loop with no \<open>Else\<close> seen and the \<open>If\<close> as the last block
  statement, and resumes where the construct ends.  Each round of the loop
  finds the next boundary \<open>it\<close> for the level of the \<open>If\<close>.  If there is none
  before the end of the range, ``IF without matching END'' is raised for the
  position of the \<open>If\<close>.  Otherwise the body before the boundary is validated
  recursively and an error in it is passed on.  Then an \<open>ElseIf\<close> raises ``ELSE
  IF after ELSE clause'' for its own position if an \<open>Else\<close> was seen, and
  continues the loop otherwise; an \<open>Else\<close> raises ``Duplicate ELSE clause'' for
  its own position if an \<open>Else\<close> was seen, and continues the loop with the
  \<open>Else\<close> noted otherwise; an \<open>End\<close> ends the construct and scanning resumes
  behind it; any other boundary raises ``Unfinished IF construct'' for the
  position of the boundary.
\<close>

theorem check_syntax_for_if_rounds:
  assumes "it = find_end_of_indented_block ss (it_block_statement + 1) e
                  (get_indentation_level (ss ! b) + 1)"
  shows "(b < e \<and> get_type (ss ! b) = type_if \<longrightarrow>
            check_syntax_range ss b e =
              (case check_syntax_for_if ss b e of
                 Inl err \<Rightarrow> Inl err
               | Inr resume \<Rightarrow> check_syntax_range ss resume e))
    \<and> check_syntax_for_if ss b e = check_syntax_for_if_loop ss b e False b
    \<and> (it = e \<longrightarrow>
          check_syntax_for_if_loop ss b e else_found it_block_statement =
            Inl (Error (''[syntax check] Step '' @ show_nat (b + 1)
                        @ '': IF without matching END'')))
    \<and> (it \<noteq> e \<longrightarrow>
          it_block_statement < it \<and> it < e
          \<and> get_indentation_level (ss ! it) \<le> get_indentation_level (ss ! b)
          \<and> (\<forall>i. it_block_statement < i \<and> i < it \<longrightarrow>
                 get_indentation_level (ss ! b) < get_indentation_level (ss ! i))
          \<and> (\<forall>err. check_syntax_range ss (it_block_statement + 1) it = Inl err \<longrightarrow>
                 check_syntax_for_if_loop ss b e else_found it_block_statement = Inl err)
          \<and> (check_syntax_range ss (it_block_statement + 1) it = Inr () \<longrightarrow>
               (get_type (ss ! it) = type_elseif \<and> else_found \<longrightarrow>
                  check_syntax_for_if_loop ss b e else_found it_block_statement =
                    Inl (Error (''[syntax check] Step '' @ show_nat (it + 1)
                                @ '': ELSE IF after ELSE clause'')))
               \<and> (get_type (ss ! it) = type_elseif \<and> \<not> else_found \<longrightarrow>
                    check_syntax_for_if_loop ss b e else_found it_block_statement =
                      check_syntax_for_if_loop ss b e False it)
               \<and> (get_type (ss ! it) = type_else \<and> else_found \<longrightarrow>
                    check_syntax_for_if_loop ss b e else_found it_block_statement =
                      Inl (Error (''[syntax check] Step '' @ show_nat (it + 1)
                                  @ '': Duplicate ELSE clause'')))
               \<and> (get_type (ss ! it) = type_else \<and> \<not> else_found \<longrightarrow>
                    check_syntax_for_if_loop ss b e else_found it_block_statement =
                      check_syntax_for_if_loop ss b e True it)
               \<and> (get_type (ss ! it) = type_end \<longrightarrow>
                    check_syntax_for_if_loop ss b e else_found it_block_statement =
                      Inr (it + 1))
               \<and> (get_type (ss ! it) \<notin> {type_elseif, type_else, type_end} \<longrightarrow>
                    check_syntax_for_if_loop ss b e else_found it_block_statement =
                      Inl (Error (''[syntax check] Step '' @ show_nat (it + 1)
                                  @ '': Unfinished IF construct'')))))"
proof -
  let ?loop = "check_syntax_for_if_loop ss b e else_found it_block_statement"
  have scan: "check_syntax_range ss b e =
              (case check_syntax_for_if ss b e of
                 Inl err \<Rightarrow> Inl err
               | Inr resume \<Rightarrow> check_syntax_range ss resume e)"
    if "b < e \<and> get_type (ss ! b) = type_if"
    using that by (simp add: check_syntax_range.simps[of ss b e])
  have start: "check_syntax_for_if ss b e = check_syntax_for_if_loop ss b e False b"
    by (simp add: check_syntax_for_if.simps)
  note unfold = check_syntax_for_if_loop.simps[of ss b e else_found it_block_statement]
  have unmatched: "?loop = Inl (Error (''[syntax check] Step '' @ show_nat (b + 1)
                        @ '': IF without matching END''))"
    if "it = e"
    using that unfolding assms
    by (subst unfold) (simp add: throw_syntax_error_for_step_def Let_def)
  have found: "it_block_statement < it \<and> it < e
          \<and> get_indentation_level (ss ! it) \<le> get_indentation_level (ss ! b)
          \<and> (\<forall>i. it_block_statement < i \<and> i < it \<longrightarrow>
                 get_indentation_level (ss ! b) < get_indentation_level (ss ! i))"
    if "it \<noteq> e"
    using find_end_of_indented_block_boundary[OF assms that] by blast
  have body_error: "?loop = Inl err"
    if "it \<noteq> e" and "check_syntax_range ss (it_block_statement + 1) it = Inl err" for err
    using that unfolding assms by (subst unfold) (simp add: Let_def)
  have branch: "?loop =
      (case get_type (ss ! it) of
         type_elseif \<Rightarrow>
           (if else_found
            then throw_syntax_error_for_step it ''ELSE IF after ELSE clause''
            else check_syntax_for_if_loop ss b e else_found it)
       | type_else \<Rightarrow>
           (if else_found
            then throw_syntax_error_for_step it ''Duplicate ELSE clause''
            else check_syntax_for_if_loop ss b e True it)
       | type_end \<Rightarrow> Inr (it + 1)
       | _ \<Rightarrow> throw_syntax_error_for_step it ''Unfinished IF construct'')"
    if "it \<noteq> e" and "check_syntax_range ss (it_block_statement + 1) it = Inr ()"
    using that unfolding assms
    by (subst unfold) (simp add: Let_def split: step_type.splits)
  have branches:
     "(get_type (ss ! it) = type_elseif \<and> else_found \<longrightarrow>
         ?loop = Inl (Error (''[syntax check] Step '' @ show_nat (it + 1)
                             @ '': ELSE IF after ELSE clause'')))
      \<and> (get_type (ss ! it) = type_elseif \<and> \<not> else_found \<longrightarrow>
           ?loop = check_syntax_for_if_loop ss b e False it)
      \<and> (get_type (ss ! it) = type_else \<and> else_found \<longrightarrow>
           ?loop = Inl (Error (''[syntax check] Step '' @ show_nat (it + 1)
                               @ '': Duplicate ELSE clause'')))
      \<and> (get_type (ss ! it) = type_else \<and> \<not> else_found \<longrightarrow>
           ?loop = check_syntax_for_if_loop ss b e True it)
      \<and> (get_type (ss ! it) = type_end \<longrightarrow> ?loop = Inr (it + 1))
      \<and> (get_type (ss ! it) \<notin> {type_elseif, type_else, type_end} \<longrightarrow>
           ?loop = Inl (Error (''[syntax check] Step '' @ show_nat (it + 1)
                               @ '': Unfinished IF construct'')))"
    if "it \<noteq> e" and "check_syntax_range ss (it_block_statement + 1) it = Inr ()"
    unfolding branch[OF that]
    by (cases "get_type (ss ! it)") (simp_all add: throw_syntax_error_for_step_def)
  from scan start unmatched found body_error branches show ?thesis by blast
qed

theorem check_syntax_for_if_rounds_witness:
  "check_syntax_for_if
       [step_at type_if 0, step_at type_action 1, step_at type_elseif 0, step_at type_action 1,
        step_at type_else 0, step_at type_action 1, step_at type_end 0] 0 7 = Inr 7
   \<and> check_syntax_for_if
       [step_at type_if 0, step_at type_action 1, step_at type_else 0, step_at type_action 1,
        step_at type_elseif 0, step_at type_action 1, step_at type_end 0] 0 7
     = Inl (Error ''[syntax check] Step 5: ELSE IF after ELSE clause'')
   \<and> check_syntax_for_if
       [step_at type_if 0, step_at type_action 1, step_at type_else 0, step_at type_action 1,
        step_at type_else 0, step_at type_action 1, step_at type_end 0] 0 7
     = Inl (Error ''[syntax check] Step 5: Duplicate ELSE clause'')
   \<and> check_syntax_for_if [step_at type_if 0, step_at type_action 1, step_at type_catch 0] 0 3
     = Inl (Error ''[syntax check] Step 3: Unfinished IF construct'')
   \<and> check_syntax_for_if [step_at type_if 0, step_at type_action 1] 0 2
     = Inl (Error ''[syntax check] Step 1: IF without matching END'')"
proof -
  let ?ok = "[step_at type_if 0, step_at type_action 1, step_at type_elseif 0,
              step_at type_action 1, step_at type_else 0, step_at type_action 1,
              step_at type_end 0]"
  let ?late = "[step_at type_if 0, step_at type_action 1, step_at type_else 0,
                step_at type_action 1, step_at type_elseif 0, step_at type_action 1,
                step_at type_end 0]"
  let ?dup = "[step_at type_if 0, step_at type_action 1, step_at type_else 0,
               step_at type_action 1, step_at type_else 0, step_at type_action 1,
               step_at type_end 0]"
  let ?catch = "[step_at type_if 0, step_at type_action 1, step_at type_catch 0]"
  let ?open = "[step_at type_if 0, step_at type_action 1]"
  note ev = find_end_of_indented_block.simps check_syntax_range.simps step_at_def
  have ok: "find_end_of_indented_block ?ok (0 + 1) 7 (get_indentation_level (?ok ! 0) + 1) = 2"
      "find_end_of_indented_block ?ok (2 + 1) 7 (get_indentation_level (?ok ! 0) + 1) = 4"
      "find_end_of_indented_block ?ok (4 + 1) 7 (get_indentation_level (?ok ! 0) + 1) = 6"
      "check_syntax_range ?ok (0 + 1) 2 = Inr ()" "check_syntax_range ?ok (2 + 1) 4 = Inr ()"
      "check_syntax_range ?ok (4 + 1) 6 = Inr ()"
    by (simp_all add: ev)
  have late: "find_end_of_indented_block ?late (0 + 1) 7 (get_indentation_level (?late ! 0) + 1) = 2"
      "find_end_of_indented_block ?late (2 + 1) 7 (get_indentation_level (?late ! 0) + 1) = 4"
      "check_syntax_range ?late (0 + 1) 2 = Inr ()" "check_syntax_range ?late (2 + 1) 4 = Inr ()"
    by (simp_all add: ev)
  have dup: "find_end_of_indented_block ?dup (0 + 1) 7 (get_indentation_level (?dup ! 0) + 1) = 2"
      "find_end_of_indented_block ?dup (2 + 1) 7 (get_indentation_level (?dup ! 0) + 1) = 4"
      "check_syntax_range ?dup (0 + 1) 2 = Inr ()" "check_syntax_range ?dup (2 + 1) 4 = Inr ()"
    by (simp_all add: ev)
  have catch: "find_end_of_indented_block ?catch (0 + 1) 3 (get_indentation_level (?catch ! 0) + 1) = 2"
      "check_syntax_range ?catch (0 + 1) 2 = Inr ()"
    by (simp_all add: ev)
  have "open": "find_end_of_indented_block ?open (0 + 1) 2 (get_indentation_level (?open ! 0) + 1) = 2"
    by (simp add: ev)
  have "check_syntax_for_if ?ok 0 7 = Inr 7"
    using check_syntax_for_if_rounds[OF ok(1)[symmetric], where else_found = False]
          check_syntax_for_if_rounds[OF ok(2)[symmetric], where else_found = False]
          check_syntax_for_if_rounds[OF ok(3)[symmetric], where else_found = True]
          ok(4-6)
    by (simp add: step_at_def)
  moreover have "check_syntax_for_if ?late 0 7
                   = Inl (Error ''[syntax check] Step 5: ELSE IF after ELSE clause'')"
    using check_syntax_for_if_rounds[OF late(1)[symmetric], where else_found = False]
          check_syntax_for_if_rounds[OF late(2)[symmetric], where else_found = True]
          late(3-4)
    by (simp add: step_at_def show_nat.simps digit_char_def)
  moreover have "check_syntax_for_if ?dup 0 7
                   = Inl (Error ''[syntax check] Step 5: Duplicate ELSE clause'')"
    using check_syntax_for_if_rounds[OF dup(1)[symmetric], where else_found = False]
          check_syntax_for_if_rounds[OF dup(2)[symmetric], where else_found = True]
          dup(3-4)
    by (simp add: step_at_def show_nat.simps digit_char_def)
  moreover have "check_syntax_for_if ?catch 0 3
                   = Inl (Error ''[syntax check] Step 3: Unfinished IF construct'')"
    using check_syntax_for_if_rounds[OF catch(1)[symmetric], where else_found = False] catch(2)
    by (simp add: step_at_def show_nat.simps digit_char_def)
  moreover have "check_syntax_for_if ?open 0 2
                   = Inl (Error ''[syntax check] Step 1: IF without matching END'')"
    using check_syntax_for_if_rounds[OF "open"[symmetric], where else_found = False]
    by (simp add: step_at_def show_nat.simps digit_char_def)
  ultimately show ?thesis by simp
qed

subsection \<open>Clauses without an opener\<close>

text \<open>
  Claim C4.  When the scan of a range is at a \<open>Catch\<close>, \<open>ElseIf\<close>, \<open>Else\<close> or
  \<open>End\<close> step, it raises the error ``CATCH without matching TRY'', ``ELSE IF
  without matching IF'', ``ELSE without matching IF'' or ``END without
  matching IF/WHILE/TRY'', in the form ``[syntax check] Step N: message''
  with \<open>N\<close> the position of the step in the whole sequence, counted from 1.
  A scan that starts at \<open>b\<close> and finds only \<open>Action\<close> steps before that step
  ends with this error, and so does \<open>check_syntax()\<close> on a sequence with no
  recorded indentation error whose steps before that step are all \<open>Action\<close>
  steps.
\<close>

theorem check_syntax_bare_clause:
  assumes "step < e"
  shows "(get_type (ss ! step) = type_catch \<longrightarrow>
            check_syntax_range ss step e =
              Inl (Error (''[syntax check] Step '' @ show_nat (step + 1)
                          @ '': CATCH without matching TRY'')))
    \<and> (get_type (ss ! step) = type_elseif \<longrightarrow>
            check_syntax_range ss step e =
              Inl (Error (''[syntax check] Step '' @ show_nat (step + 1)
                          @ '': ELSE IF without matching IF'')))
    \<and> (get_type (ss ! step) = type_else \<longrightarrow>
            check_syntax_range ss step e =
              Inl (Error (''[syntax check] Step '' @ show_nat (step + 1)
                          @ '': ELSE without matching IF'')))
    \<and> (get_type (ss ! step) = type_end \<longrightarrow>
            check_syntax_range ss step e =
              Inl (Error (''[syntax check] Step '' @ show_nat (step + 1)
                          @ '': END without matching IF/WHILE/TRY'')))
    \<and> (b \<le> step \<and> (\<forall>i. b \<le> i \<and> i < step \<longrightarrow> get_type (ss ! i) = type_action) \<longrightarrow>
            check_syntax_range ss b e = check_syntax_range ss step e)
    \<and> (indentation_error seq = [] \<and> steps seq = ss \<and> e = length ss
          \<and> (\<forall>i < step. get_type (ss ! i) = type_action) \<longrightarrow>
            check_syntax seq = check_syntax_range ss step e)"
proof -
  have bare: "get_type (ss ! step) = ty \<Longrightarrow> ty \<in> {type_catch, type_elseif, type_else, type_end}
      \<Longrightarrow> check_syntax_range ss step e =
          throw_syntax_error_for_step step
            (case ty of type_catch \<Rightarrow> ''CATCH without matching TRY''
                      | type_elseif \<Rightarrow> ''ELSE IF without matching IF''
                      | type_else \<Rightarrow> ''ELSE without matching IF''
                      | _ \<Rightarrow> ''END without matching IF/WHILE/TRY'')" for ty
    using assms by (auto simp add: check_syntax_range.simps[of ss step e])
  have skip: "check_syntax_range ss b e = check_syntax_range ss step e"
    if "b \<le> step \<and> (\<forall>i. b \<le> i \<and> i < step \<longrightarrow> get_type (ss ! i) = type_action)"
    using that assms by (intro check_syntax_range_skip_actions) auto
  have top: "check_syntax seq = check_syntax_range ss step e"
    if "indentation_error seq = [] \<and> steps seq = ss \<and> e = length ss
          \<and> (\<forall>i < step. get_type (ss ! i) = type_action)"
  proof -
    from that have "check_syntax seq = check_syntax_range ss 0 e"
      by (auto simp add: check_syntax_def)
    also from that assms have "\<dots> = check_syntax_range ss step e"
      by (intro check_syntax_range_skip_actions) auto
    finally show ?thesis .
  qed
  from bare[of type_catch] bare[of type_elseif] bare[of type_else] bare[of type_end] skip top
  show ?thesis by (simp add: throw_syntax_error_for_step_def)
qed

theorem check_syntax_bare_clause_witness:
  "check_syntax (mk_sequence [type_action, type_action, type_catch, type_action])
     = Inl (Error ''[syntax check] Step 3: CATCH without matching TRY'')
   \<and> check_syntax (mk_sequence [type_action, type_elseif])
     = Inl (Error ''[syntax check] Step 2: ELSE IF without matching IF'')
   \<and> check_syntax (mk_sequence [type_else])
     = Inl (Error ''[syntax check] Step 1: ELSE without matching IF'')
   \<and> check_syntax (mk_sequence [type_action, type_end])
     = Inl (Error ''[syntax check] Step 2: END without matching IF/WHILE/TRY'')"
proof -
  have lt: "\<And>P. (\<forall>i<(2::nat). P i) = (P 0 \<and> P 1)" "\<And>P. (\<forall>i<(1::nat). P i) = P 0"
    by (auto simp add: less_Suc_eq numeral_2_eq_2)
  have "check_syntax (mk_sequence [type_action, type_action, type_catch, type_action])
          = Inl (Error ''[syntax check] Step 3: CATCH without matching TRY'')"
    using check_syntax_bare_clause
      [of 2 4 "map mk_step [type_action, type_action, type_catch, type_action]" 0
          "mk_sequence [type_action, type_action, type_catch, type_action]"]
    by (simp add: mk_sequence_def mk_step_def lt show_nat.simps digit_char_def)
  moreover have "check_syntax (mk_sequence [type_action, type_elseif])
          = Inl (Error ''[syntax check] Step 2: ELSE IF without matching IF'')"
    using check_syntax_bare_clause
      [of 1 2 "map mk_step [type_action, type_elseif]" 0 "mk_sequence [type_action, type_elseif]"]
    by (simp add: mk_sequence_def mk_step_def lt show_nat.simps digit_char_def)
  moreover have "check_syntax (mk_sequence [type_else])
          = Inl (Error ''[syntax check] Step 1: ELSE without matching IF'')"
    using check_syntax_bare_clause
      [of 0 1 "map mk_step [type_else]" 0 "mk_sequence [type_else]"]
    by (simp add: mk_sequence_def mk_step_def show_nat.simps digit_char_def)
  moreover have "check_syntax (mk_sequence [type_action, type_end])
          = Inl (Error ''[syntax check] Step 2: END without matching IF/WHILE/TRY'')"
    using check_syntax_bare_clause
      [of 1 2 "map mk_step [type_action, type_end]" 0 "mk_sequence [type_action, type_end]"]
    by (simp add: mk_sequence_def mk_step_def lt show_nat.simps digit_char_def)
  ultimately show ?thesis by simp
qed

subsection \<open>The public check\<close>

text \<open>
  Claim C7.  \<open>check_syntax()\<close> short-circuits on a recorded indentation
  error: when \<open>indentation_error_\<close> is not empty, the result is that error,
  whatever the steps are; otherwise the result is that of the
  recursive-descent check over the whole range of steps.
\<close>

theorem check_syntax_short_circuit:
  "(indentation_error seq \<noteq> [] \<longrightarrow>
      check_syntax seq = Inl (Error (indentation_error seq))
      \<and> check_syntax (seq\<lparr>steps := ss\<rparr>) = check_syntax seq)
   \<and> (indentation_error seq = [] \<longrightarrow>
      check_syntax seq = check_syntax_range (steps seq) 0 (length (steps seq)))"
  by (simp add: check_syntax_def)

theorem check_syntax_short_circuit_witness:
  "check_syntax \<lparr>label = ''sequence'', steps = [step_at type_catch 0],
                 indentation_error = ''Steps are not nested correctly''\<rparr>
     = Inl (Error ''Steps are not nested correctly'')
   \<and> check_syntax \<lparr>label = ''sequence'', steps = [step_at type_action 0],
                   indentation_error = []\<rparr> = Inr ()"
  using check_syntax_short_circuit
          [of "\<lparr>label = ''sequence'', steps = [step_at type_catch 0],
                indentation_error = ''Steps are not nested correctly''\<rparr>" "[]"]
        check_syntax_short_circuit
          [of "\<lparr>label = ''sequence'', steps = [step_at type_action 0],
                indentation_error = []\<rparr>" "[]"]
  by (simp add: step_at_def check_syntax_range.simps)

subsection \<open>A sequence that starts with \<open>END\<close>\<close>

text \<open>
  Claim C8, as the specification states it: a lone \<open>END\<close> fails with a message
  naming ``without matching'' at position 1, and \<open>END\<close> followed by an opener
  or clause step fails with such a message at position 2.  After the
  indentation pass both sequences fail with the recorded indentation error,
  which has no position and does not contain ``without matching''; and with
  no indentation error recorded, the scan of \<open>END, TRY\<close> stops at the \<open>END\<close>,
  position 1.
\<close>

theorem end_first_message_counterexample:
  "check_syntax (indent (mk_sequence [type_end]))
     = Inl (Error ''Steps are not nested correctly'')
   \<and> check_syntax (indent (mk_sequence [type_end, type_try]))
     = Inl (Error ''Steps are not nested correctly'')
   \<and> \<not> mentions ''without matching'' ''Steps are not nested correctly''
   \<and> check_syntax (mk_sequence [type_end, type_try])
     = Inl (Error ''[syntax check] Step 1: END without matching IF/WHILE/TRY'')"
  by code_simp

text \<open>
  Claim C8, amended.  A sequence whose first step is \<open>END\<close>, alone or followed
  by any steps, always fails validation: after the indentation pass with the
  recorded error ``Steps are not nested correctly'', and, when no
  indentation error is recorded, with ``END without matching IF/WHILE/TRY''
  at position 1.
\<close>

theorem end_first_fails:
  assumes "steps seq = s # rest" and "get_type s = type_end"
  shows "check_syntax (indent seq) = Inl (Error ''Steps are not nested correctly'')
    \<and> (indentation_error seq = [] \<longrightarrow>
          check_syntax seq =
            Inl (Error ''[syntax check] Step 1: END without matching IF/WHILE/TRY''))"
proof -
  have "table_level 0 (get_type s) < 0"
    using assms(2) by (simp add: table_level_def)
  from indent_body_error_negative[OF this]
  have body: "snd (snd (indent_body 0 [] s)) = ''Steps are not nested correctly''" .
  have "loop_error (indent_loop 0 [] (s # rest)) = ''Steps are not nested correctly''"
    unfolding indent_loop_Cons body
    using indent_loop_error_kept[of "''Steps are not nested correctly''"
            "fst (snd (indent_body 0 [] s))" rest]
    by (simp add: loop_error_def)
  then have "indentation_error (indent seq) = ''Steps are not nested correctly''"
    by (simp add: indent_unfold assms(1))
  then have after: "check_syntax (indent seq) = Inl (Error ''Steps are not nested correctly'')"
    by (simp add: check_syntax_def)
  have "check_syntax_range (s # rest) 0 (length (s # rest))
          = Inl (Error ''[syntax check] Step 1: END without matching IF/WHILE/TRY'')"
    using assms(2)
    by (simp add: check_syntax_range.simps[of "s # rest" 0] throw_syntax_error_for_step_def
          show_nat.simps digit_char_def)
  then have "check_syntax seq =
               Inl (Error ''[syntax check] Step 1: END without matching IF/WHILE/TRY'')"
    if "indentation_error seq = []"
    using that by (simp add: check_syntax_def assms(1))
  with after show ?thesis by simp
qed

theorem end_first_fails_witness:
  "check_syntax (indent (mk_sequence [type_end, type_while, type_action, type_end]))
     = Inl (Error ''Steps are not nested correctly'')
   \<and> check_syntax (mk_sequence [type_end, type_while, type_action, type_end])
     = Inl (Error ''[syntax check] Step 1: END without matching IF/WHILE/TRY'')"
  using end_first_fails
          [of "mk_sequence [type_end, type_while, type_action, type_end]" "mk_step type_end"
              "map mk_step [type_while, type_action, type_end]"]
  by (simp add: mk_sequence_def mk_step_def)

section \<open>The label check of the constructor\<close>

text \<open>
  Claim C10.  Constructing a \<open>Sequence\<close> validates the label: an empty label
  throws the error ``Sequence label may not be empty'', a label longer than
  \<open>max_label_length\<close> throws the ``too long'' error, and every other label is
  stored unchanged in a sequence that has no steps and no indentation error.
\<close>

theorem Sequence_ctor_checks_label:
  "(lbl = [] \<longrightarrow>
      Sequence_ctor max_label_length lbl = Inl (Error ''Sequence label may not be empty''))
   \<and> (lbl \<noteq> [] \<and> length lbl > max_label_length \<longrightarrow>
      Sequence_ctor max_label_length lbl =
        Inl (Error (''Label '' @ [CHR 0x22] @ lbl @ [CHR 0x22] @ '' is too long (>''
                    @ show_nat max_label_length @ '' characters)'')))
   \<and> (lbl \<noteq> [] \<and> length lbl \<le> max_label_length \<longrightarrow>
      Sequence_ctor max_label_length lbl =
        Inr \<lparr>label = lbl, steps = [], indentation_error = []\<rparr>)"
  by (simp add: Sequence_ctor_def check_label_def)

theorem Sequence_ctor_checks_label_witness:
  "Sequence_ctor 64 [] = Inl (Error ''Sequence label may not be empty'')
   \<and> Sequence_ctor 4 ''abcde'' = Inl (Error ''Label \"abcde\" is too long (>4 characters)'')
   \<and> Sequence_ctor 64 ''abcde'' = Inr \<lparr>label = ''abcde'', steps = [], indentation_error = []\<rparr>"
  using Sequence_ctor_checks_label [of "[]" 64]
        Sequence_ctor_checks_label [of "''abcde''" 4]
        Sequence_ctor_checks_label [of "''abcde''" 64]
  by (simp add: show_nat.simps digit_char_def)

end
